theory Spec2Isabelle
  imports Main "HOL-Library.Word"
begin

unbundle bit_operations_syntax

section \<open>The \<open>xor\<close> command of the performance extension\<close>

text \<open>
  The extension consists of one command procedure, \<open>Tcl_xor_cmd\<close>, which is the same
  in \<open>performance.c\<close> and in \<open>generic/performance.c\<close> up to the integer type of the
  lengths and counters (\<open>int\<close> in the first, \<open>Tcl_Size\<close> in the second). The lengths
  are handed out by \<open>Tcl_GetByteArrayFromObj\<close> in that same type, \<open>ti\<close> never exceeds
  \<open>textLen\<close> and \<open>si\<close> never exceeds the larger of \<open>saltLen\<close> and 1, so no counter can
  wrap around and both are natural numbers here.
\<close>

subsection \<open>Values, interpreter and memory\<close>

type_synonym byte = "8 word"

text \<open>The completion codes of \<open>tcl.h\<close> that the command returns.\<close>

datatype return_code = TCL_OK | TCL_ERROR

text \<open>
  What the interpreter's result holds: a string (\<open>Tcl_ResetResult\<close>,
  \<open>Tcl_AppendResult\<close>) or a byte array object (\<open>Tcl_NewByteArrayObj\<close>).
\<close>

datatype interp_result = StringResult string | ByteArrayResult "byte list"

text \<open>
  The statements of the command that leave no mark on the interpreter are logged:
  the call of \<open>malloc\<close> with its size, every execution of the loop body
  \<open>result[ti] = text[ti] ^ salt[si++]\<close> with the values of \<open>ti\<close> and \<open>si\<close> it reads at,
  and the call of \<open>free\<close>.
\<close>

datatype effect = Malloc nat | XorByte nat nat | Free

text \<open>
  Everything the command can observe besides its arguments: the interpreter's result on
  entry, the content of the block that \<open>malloc\<close> hands out (it is not initialised), and
  the bytes that lie in memory behind the last byte of the salt. The model assumes that
  \<open>malloc\<close> returns a block (the command does not test for a null pointer).
\<close>

record machine =
  interp :: interp_result
  fresh :: "nat \<Rightarrow> byte"
  beyond :: "nat \<Rightarrow> byte"

text \<open>The local variables of the loop, and the log.\<close>

record xor_vars =
  si :: nat
  ti :: nat
  result :: "byte list"
  log :: "effect list"

text \<open>What a call leaves behind: the completion code, the interpreter's result, the log.\<close>

record outcome =
  retval :: return_code
  objResult :: interp_result
  effects :: "effect list"

subsection \<open>The Tcl library calls and \<open>malloc\<close>\<close>

definition Tcl_ResetResult :: "interp_result \<Rightarrow> interp_result" where
  "Tcl_ResetResult r = StringResult []"

text \<open>
  \<open>Tcl_AppendResult\<close> appends to the string the result holds; a byte array result is
  first turned into its string, one character per byte.
\<close>

fun Tcl_AppendResult :: "interp_result \<Rightarrow> string \<Rightarrow> interp_result" where
  "Tcl_AppendResult (StringResult s) msg = StringResult (s @ msg)"
| "Tcl_AppendResult (ByteArrayResult bs) msg =
     StringResult (map (\<lambda>b. char_of (unat b)) bs @ msg)"

definition malloc :: "machine \<Rightarrow> nat \<Rightarrow> byte list" where
  "malloc m n = map (fresh m) [0..<n]"

text \<open>\<open>Tcl_NewByteArrayObj(bytes, length)\<close> copies the first \<open>length\<close> bytes.\<close>

definition Tcl_NewByteArrayObj :: "byte list \<Rightarrow> nat \<Rightarrow> interp_result" where
  "Tcl_NewByteArrayObj bytes n = ByteArrayResult (take n bytes)"

text \<open>
  The read \<open>salt[i]\<close>. C does not check the index: at or behind the length of the salt
  the read yields whatever memory holds there.
\<close>

definition salt_at :: "(nat \<Rightarrow> byte) \<Rightarrow> byte list \<Rightarrow> nat \<Rightarrow> byte" where
  "salt_at past salt i = (if i < length salt then salt ! i else past (i - length salt))"

subsection \<open>The loop\<close>

text \<open>
  One execution of the body
  \<^verbatim>\<open>result[ti] = text[ti] ^ salt[si++]; if (si >= saltLen) si = 0;\<close>
  followed by the \<open>ti++\<close> of the loop header. The body runs under \<open>ti < textLen\<close>, and
  \<open>result\<close> has \<open>textLen\<close> bytes, so \<open>text[ti]\<close> and \<open>result[ti]\<close> are inside their
  buffers.
\<close>

definition xor_body :: "(nat \<Rightarrow> byte) \<Rightarrow> byte list \<Rightarrow> byte list \<Rightarrow> xor_vars \<Rightarrow> xor_vars" where
  "xor_body past text salt s =
     (let b = text ! ti s XOR salt_at past salt (si s);
          si1 = si s + 1
      in \<lparr>si = (if si1 \<ge> length salt then 0 else si1),
          ti = ti s + 1,
          result = (result s)[ti s := b],
          log = log s @ [XorByte (ti s) (si s)]\<rparr>)"

function xor_loop :: "(nat \<Rightarrow> byte) \<Rightarrow> byte list \<Rightarrow> byte list \<Rightarrow> xor_vars \<Rightarrow> xor_vars" where
  "xor_loop past text salt s =
     (if ti s < length text then xor_loop past text salt (xor_body past text salt s) else s)"
  by pat_completeness auto
termination
  by (relation "measure (\<lambda>(past, text, salt, s). length text - ti s)")
     (auto simp: xor_body_def)

declare xor_loop.simps [simp del]

subsection \<open>The command\<close>

definition usage :: string where
  "usage = ''Invalid command count, use: xor <string> <salt>''"

text \<open>
  \<open>objv\<close> is the argument vector, every argument given by the byte array that
  \<open>Tcl_GetByteArrayFromObj\<close> yields for it; \<open>objc\<close> is its length, and \<open>objv[0]\<close> is the
  command word.
\<close>

definition Tcl_xor_cmd :: "machine \<Rightarrow> byte list list \<Rightarrow> outcome" where
  "Tcl_xor_cmd m objv =
     (let objc = length objv;
          r0 = Tcl_ResetResult (interp m)
      in if objc \<noteq> 3 then
           \<lparr>retval = TCL_ERROR, objResult = Tcl_AppendResult r0 usage, effects = []\<rparr>
         else
           let text = objv ! 1; textLen = length text;
               salt = objv ! 2;
               buf = malloc m textLen;
               s = xor_loop (beyond m) text salt
                     \<lparr>si = 0, ti = 0, result = buf, log = [Malloc textLen]\<rparr>
           in \<lparr>retval = TCL_OK,
               objResult = Tcl_NewByteArrayObj (result s) textLen,
               effects = log s @ [Free]\<rparr>)"

text \<open>
  The transform as a script sees it: the command called with the two arguments
  \<open>data\<close> and \<open>key\<close>, observed by its completion code and the interpreter's result.
\<close>

definition xor_word :: "byte list" where
  "xor_word = [0x78, 0x6F, 0x72]"

definition transform :: "machine \<Rightarrow> byte list \<Rightarrow> byte list \<Rightarrow> return_code \<times> interp_result" where
  "transform m data key =
     (let out = Tcl_xor_cmd m [xor_word, data, key] in (retval out, objResult out))"

text \<open>
  The reference definition of the specification: the output byte at position \<open>i\<close> is
  the data byte at \<open>i\<close> combined with the key byte at \<open>i mod len(key)\<close>, computed for
  each position on its own.
\<close>

definition transform_ref :: "byte list \<Rightarrow> byte list \<Rightarrow> byte list" where
  "transform_ref data key =
     map (\<lambda>i. data ! i XOR key ! (i mod length key)) [0..<length data]"

text \<open>
  A machine for evaluating concrete calls: the interpreter's result is empty and memory
  holds zero bytes.
\<close>

definition zero_machine :: machine where
  "zero_machine = \<lparr>interp = StringResult [], fresh = (\<lambda>_. 0), beyond = (\<lambda>_. 0)\<rparr>"

section \<open>The loop computes the cyclic combination\<close>

lemma xor_loop_done: "\<not> ti s < length text \<Longrightarrow> xor_loop past text salt s = s"
  by (simp add: xor_loop.simps)

lemma xor_loop_step:
  "ti s < length text \<Longrightarrow>
   xor_loop past text salt s = xor_loop past text salt (xor_body past text salt s)"
  by (subst xor_loop.simps) simp

lemma xor_body_fields [simp]:
  "ti (xor_body past text salt s) = ti s + 1"
  "si (xor_body past text salt s) = (if si s + 1 \<ge> length salt then 0 else si s + 1)"
  "result (xor_body past text salt s) =
     (result s)[ti s := text ! ti s XOR salt_at past salt (si s)]"
  "log (xor_body past text salt s) = log s @ [XorByte (ti s) (si s)]"
  by (simp_all add: xor_body_def Let_def)

lemma length_malloc [simp]: "length (malloc m n) = n"
  by (simp add: malloc_def)

text \<open>
  The invariant of the loop for a salt with at least one byte: \<open>si\<close> is \<open>ti\<close> modulo
  the length of the salt, and the bytes of \<open>result\<close> below \<open>ti\<close> are final. Every read of
  the salt is then inside the salt.
\<close>

lemma xor_loop_result:
  "salt \<noteq> [] \<Longrightarrow> ti s \<le> length text \<Longrightarrow> length (result s) = length text \<Longrightarrow>
   si s = ti s mod length salt \<Longrightarrow>
   result (xor_loop past text salt s) =
     take (ti s) (result s) @
     map (\<lambda>i. text ! i XOR salt ! (i mod length salt)) [ti s..<length text]"
proof (induction past "text" salt s rule: xor_loop.induct)
  case (1 past tx salt s)
  show ?case
  proof (cases "ti s < length tx")
    case False
    with "1.prems" show ?thesis by (simp add: xor_loop_done)
  next
    case True
    let ?s' = "xor_body past tx salt s"
    have K: "0 < length salt" using "1.prems"(1) by simp
    have si': "si ?s' = ti ?s' mod length salt"
      using "1.prems"(4) mod_less_divisor [OF K, of "ti s"] by (auto simp: mod_Suc)
    have rd: "salt_at past salt (si s) = salt ! (ti s mod length salt)"
      using "1.prems"(4) K by (simp add: salt_at_def)
    have IH: "result (xor_loop past tx salt ?s') =
       take (ti ?s') (result ?s') @
       map (\<lambda>i. tx ! i XOR salt ! (i mod length salt)) [ti ?s'..<length tx]"
      using "1.IH" [OF True "1.prems"(1)] True "1.prems"(3) si' by simp
    have tk: "take (ti ?s') (result ?s') =
       take (ti s) (result s) @ [tx ! ti s XOR salt ! (ti s mod length salt)]"
      using True "1.prems"(3) rd by (simp add: take_Suc_conv_app_nth)
    have up: "[ti s..<length tx] = ti s # [ti ?s'..<length tx]"
      using True by (simp add: upt_conv_Cons)
    show ?thesis
      by (simp only: xor_loop_step [OF True] IH tk up list.map append_assoc append.simps)
  qed
qed

lemma xor_loop_log:
  "salt \<noteq> [] \<Longrightarrow> si s = ti s mod length salt \<Longrightarrow>
   log (xor_loop past text salt s) =
     log s @ map (\<lambda>i. XorByte i (i mod length salt)) [ti s..<length text]"
proof (induction past "text" salt s rule: xor_loop.induct)
  case (1 past tx salt s)
  show ?case
  proof (cases "ti s < length tx")
    case False
    then show ?thesis by (simp add: xor_loop_done)
  next
    case True
    let ?s' = "xor_body past tx salt s"
    have K: "0 < length salt" using "1.prems"(1) by simp
    have si': "si ?s' = ti ?s' mod length salt"
      using "1.prems"(2) mod_less_divisor [OF K, of "ti s"] by (auto simp: mod_Suc)
    have IH: "log (xor_loop past tx salt ?s') =
       log ?s' @ map (\<lambda>i. XorByte i (i mod length salt)) [ti ?s'..<length tx]"
      using "1.IH" [OF True "1.prems"(1) si'] .
    have up: "[ti s..<length tx] = ti s # [ti ?s'..<length tx]"
      using True by (simp add: upt_conv_Cons)
    show ?thesis
      using "1.prems"(2) by (simp add: xor_loop_step [OF True] IH up)
  qed
qed

section \<open>The command on two arguments\<close>

lemma Tcl_xor_cmd_cyclic:
  assumes "key \<noteq> []"
  shows "Tcl_xor_cmd m [c, data, key] =
    \<lparr>retval = TCL_OK,
     objResult = ByteArrayResult
       (map (\<lambda>i. data ! i XOR key ! (i mod length key)) [0..<length data]),
     effects = Malloc (length data) #
       map (\<lambda>i. XorByte i (i mod length key)) [0..<length data] @ [Free]\<rparr>"
proof -
  let ?s = "\<lparr>si = 0, ti = 0, result = malloc m (length data), log = [Malloc (length data)]\<rparr>"
  have r: "result (xor_loop (beyond m) data key ?s) =
      map (\<lambda>i. data ! i XOR key ! (i mod length key)) [0..<length data]"
    using xor_loop_result [of key ?s data "beyond m"] assms by simp
  have l: "log (xor_loop (beyond m) data key ?s) =
      Malloc (length data) # map (\<lambda>i. XorByte i (i mod length key)) [0..<length data]"
    using xor_loop_log [of key ?s "beyond m" data] assms by simp
  show ?thesis
    by (simp add: Tcl_xor_cmd_def Let_def r l Tcl_NewByteArrayObj_def)
qed

lemma transform_cyclic:
  "key \<noteq> [] \<Longrightarrow> transform m data key =
     (TCL_OK, ByteArrayResult
        (map (\<lambda>i. data ! i XOR key ! (i mod length key)) [0..<length data]))"
  by (simp add: transform_def Tcl_xor_cmd_cyclic)

lemma cyclic_twice:
  assumes "key \<noteq> []"
  shows "map (\<lambda>i. map (\<lambda>j. data ! j XOR key ! (j mod length key)) [0..<length data] ! i
                    XOR key ! (i mod length key)) [0..<length data] = (data :: byte list)"
  by (rule nth_equalityI) (simp_all add: xor.assoc)

text \<open>
  With a salt of at least one byte every read \<open>salt[si]\<close> of the loop is inside the salt,
  and every \<open>text[ti]\<close> and \<open>result[ti]\<close> inside the data.
\<close>

lemma reads_in_bounds:
  assumes "key \<noteq> []" and "XorByte i j \<in> set (effects (Tcl_xor_cmd m [c, data, key]))"
  shows "i < length data \<and> j < length key"
  using assms by (auto simp: Tcl_xor_cmd_cyclic)

section \<open>The command on an empty key\<close>

text \<open>
  The command has one test, the one of \<open>objc\<close>: called with two arguments it always
  returns \<open>TCL_OK\<close>.
\<close>

lemma no_error_on_two_arguments: "retval (Tcl_xor_cmd m [c, data, key]) = TCL_OK"
  by (simp add: Tcl_xor_cmd_def Let_def)

text \<open>
  With a salt of length 0 the counter \<open>si\<close> is set back to 0 after every byte, and every
  byte of the data is combined with the byte that \<open>salt[0]\<close> reads, which lies behind the
  salt.
\<close>

lemma xor_loop_empty_salt:
  "ti s \<le> length text \<Longrightarrow> length (result s) = length text \<Longrightarrow> si s = 0 \<Longrightarrow>
   result (xor_loop past text [] s) =
     take (ti s) (result s) @ map (\<lambda>i. text ! i XOR past 0) [ti s..<length text]"
proof (induction past "text" "[] :: byte list" s rule: xor_loop.induct)
  case (1 past tx s)
  show ?case
  proof (cases "ti s < length tx")
    case False
    with "1.prems" show ?thesis by (simp add: xor_loop_done)
  next
    case True
    let ?s' = "xor_body past tx [] s"
    have IH: "result (xor_loop past tx [] ?s') =
       take (ti ?s') (result ?s') @ map (\<lambda>i. tx ! i XOR past 0) [ti ?s'..<length tx]"
      using "1.hyps" [OF True] True "1.prems"(2) by simp
    have tk: "take (ti ?s') (result ?s') = take (ti s) (result s) @ [tx ! ti s XOR past 0]"
      using True "1.prems"(2,3) by (simp add: take_Suc_conv_app_nth salt_at_def)
    have up: "[ti s..<length tx] = ti s # [ti ?s'..<length tx]"
      using True by (simp add: upt_conv_Cons)
    show ?thesis
      by (simp only: xor_loop_step [OF True] IH tk up list.map append_assoc append.simps)
  qed
qed

lemma transform_empty_key:
  "transform m data [] = (TCL_OK, ByteArrayResult (map (\<lambda>b. b XOR beyond m 0) data))"
proof -
  let ?s = "\<lparr>si = 0, ti = 0, result = malloc m (length data), log = [Malloc (length data)]\<rparr>"
  have "result (xor_loop (beyond m) data [] ?s) =
      map (\<lambda>i. data ! i XOR beyond m 0) [0..<length data]"
    using xor_loop_empty_salt [of ?s data "beyond m"] by simp
  also have "\<dots> = map (\<lambda>b. b XOR beyond m 0) data"
    by (rule nth_equalityI) simp_all
  finally show ?thesis
    by (simp add: transform_def Tcl_xor_cmd_def Let_def Tcl_NewByteArrayObj_def)
qed

text \<open>
  Where the key has a byte, or the data has none, the outcome of the transform is the same
  on every machine: it depends neither on the interpreter's earlier result, nor on the
  content of the block from \<open>malloc\<close>, nor on the memory behind the key.
\<close>

lemma transform_deterministic_on_valid:
  "key \<noteq> [] \<or> data = [] \<Longrightarrow> transform m data key = transform m' data key"
  by (cases "key = []") (simp_all add: transform_empty_key transform_cyclic)

section \<open>The properties of the transform\<close>

text \<open>
  Claim C1. For data of length \<open>N \<ge> 1\<close> and a key of length \<open>K \<ge> 1\<close> the transform
  returns \<open>TCL_OK\<close> and a byte array of exactly \<open>N\<close> bytes whose byte at every position
  \<open>i < N\<close> is \<open>data[i] XOR key[i mod K]\<close>.
\<close>

theorem transform_bytes:
  "1 \<le> length data \<Longrightarrow> 1 \<le> length key \<Longrightarrow>
   \<exists>r. transform m data key = (TCL_OK, ByteArrayResult r) \<and> length r = length data \<and>
       (\<forall>i<length data. r ! i = data ! i XOR key ! (i mod length key))"
proof -
  assume "1 \<le> length data" and "1 \<le> length key"
  then have "key \<noteq> []" by auto
  then show ?thesis by (simp add: transform_cyclic)
qed

theorem transform_bytes_witness:
  "1 \<le> length [0x48, 0x00, 0xFF :: byte] \<and> 1 \<le> length [0x73, 0x65 :: byte] \<and>
   (\<exists>r. transform zero_machine [0x48, 0x00, 0xFF] [0x73, 0x65] = (TCL_OK, ByteArrayResult r) \<and>
        length r = length [0x48, 0x00, 0xFF :: byte] \<and>
        (\<forall>i<length [0x48, 0x00, 0xFF :: byte].
            r ! i = [0x48, 0x00, 0xFF] ! i XOR [0x73, 0x65] ! (i mod length [0x73, 0x65 :: byte])))"
proof -
  have d: "1 \<le> length [0x48, 0x00, 0xFF :: byte]" by simp
  have k: "1 \<le> length [0x73, 0x65 :: byte]" by simp
  from d k transform_bytes [OF d k, of zero_machine] show ?thesis by (intro conjI)
qed

text \<open>
  Claim C2. For every data and every non-empty key, the transform applied to its own
  output with the same key gives back the data, byte for byte. Data and key range over
  all lists of 8-bit values, so no byte value (the null byte included) is special, and the
  two calls may run on different machines.
\<close>

theorem transform_involution:
  "key \<noteq> [] \<Longrightarrow>
   \<exists>r. transform m data key = (TCL_OK, ByteArrayResult r) \<and>
       transform m' r key = (TCL_OK, ByteArrayResult data)"
  by (simp add: transform_cyclic cyclic_twice)

theorem transform_involution_witness:
  "[0x58, 0x59 :: byte] \<noteq> [] \<and>
   (\<exists>r. transform zero_machine [0x00, 0xFF, 0x41, 0x00] [0x58, 0x59] = (TCL_OK, ByteArrayResult r) \<and>
        transform zero_machine r [0x58, 0x59] = (TCL_OK, ByteArrayResult [0x00, 0xFF, 0x41, 0x00]))"
proof -
  have k: "[0x58, 0x59 :: byte] \<noteq> []" by simp
  from k transform_involution [OF k, of zero_machine "[0x00, 0xFF, 0x41, 0x00]" zero_machine]
  show ?thesis by (intro conjI)
qed

text \<open>
  Claim C4. For every data, the empty one included, and every non-empty key, the
  transform returns a byte array that is exactly as long as the data, whatever the length
  of the key.
\<close>

theorem transform_length:
  "key \<noteq> [] \<Longrightarrow>
   \<exists>r. transform m data key = (TCL_OK, ByteArrayResult r) \<and> length r = length data"
  by (simp add: transform_cyclic)

theorem transform_length_witness:
  "[0x58 :: byte] \<noteq> [] \<and>
   (\<exists>r. transform zero_machine [] [0x58] = (TCL_OK, ByteArrayResult r) \<and>
        length r = length ([] :: byte list))"
proof -
  have k: "[0x58 :: byte] \<noteq> []" by simp
  from k transform_length [OF k, of zero_machine "[]"] show ?thesis by (intro conjI)
qed

text \<open>
  Claim C9. The loop with its running counter (\<open>si\<close> starts at 0, is incremented for
  every byte and set back to 0 when it reaches the length of the salt) computes, for every
  data and every non-empty key, the reference definition \<open>transform_ref\<close>, which takes
  the key byte at \<open>i mod len(key)\<close> for each position on its own. This holds of the loop, run
  from its initial variables on any buffer of the data's length, and of the command.
\<close>

theorem running_counter_refines_reference:
  "key \<noteq> [] \<Longrightarrow> length buf = length data \<Longrightarrow>
   result (xor_loop past data key \<lparr>si = 0, ti = 0, result = buf, log = l\<rparr>) =
     transform_ref data key \<and>
   transform m data key = (TCL_OK, ByteArrayResult (transform_ref data key))"
  using xor_loop_result [of key "\<lparr>si = 0, ti = 0, result = buf, log = l\<rparr>" data past]
  by (simp add: transform_cyclic transform_ref_def)

theorem running_counter_refines_reference_witness:
  "[0x58, 0x59 :: byte] \<noteq> [] \<and> length [0, 0, 0 :: byte] = length [0x41, 0x42, 0x43 :: byte] \<and>
   result (xor_loop (\<lambda>_. 0) [0x41, 0x42, 0x43] [0x58, 0x59]
             \<lparr>si = 0, ti = 0, result = [0, 0, 0], log = []\<rparr>) =
     transform_ref [0x41, 0x42, 0x43] [0x58, 0x59] \<and>
   transform zero_machine [0x41, 0x42, 0x43] [0x58, 0x59] =
     (TCL_OK, ByteArrayResult (transform_ref [0x41, 0x42, 0x43] [0x58, 0x59]))"
proof -
  have k: "[0x58, 0x59 :: byte] \<noteq> []" by simp
  have b: "length [0, 0, 0 :: byte] = length [0x41, 0x42, 0x43 :: byte]" by simp
  from k b running_counter_refines_reference [OF k b, of "\<lambda>_. 0" "[]" zero_machine]
  show ?thesis by (intro conjI) simp_all
qed

text \<open>
  Claim C10. For non-empty byte sequences \<open>a\<close> and \<open>b\<close> of equal length the transform of
  \<open>a\<close> with key \<open>b\<close> equals the transform of \<open>b\<close> with key \<open>a\<close>. The equal length is
  needed: the output is as long as the first argument, so for non-empty arguments of
  different lengths the two results differ.
\<close>

theorem transform_symmetric:
  assumes "a \<noteq> []" and "b \<noteq> []"
  shows "(length a = length b \<longrightarrow> transform m a b = transform m' b a) \<and>
         (length a \<noteq> length b \<longrightarrow> transform m a b \<noteq> transform m' b a)"
proof (intro conjI impI)
  assume eq: "length a = length b"
  have "map (\<lambda>i. a ! i XOR b ! (i mod length b)) [0..<length a] =
        map (\<lambda>i. b ! i XOR a ! (i mod length a)) [0..<length b]"
    using eq by (intro nth_equalityI) (simp_all add: xor.commute)
  then show "transform m a b = transform m' b a"
    using assms by (simp add: transform_cyclic)
next
  assume ne: "length a \<noteq> length b"
  show "transform m a b \<noteq> transform m' b a"
  proof
    assume "transform m a b = transform m' b a"
    then have "map (\<lambda>i. a ! i XOR b ! (i mod length b)) [0..<length a] =
        map (\<lambda>i. b ! i XOR a ! (i mod length a)) [0..<length b]"
      using assms by (simp add: transform_cyclic)
    then have "length (map (\<lambda>i. a ! i XOR b ! (i mod length b)) [0..<length a]) =
        length (map (\<lambda>i. b ! i XOR a ! (i mod length a)) [0..<length b])"
      by (rule arg_cong)
    with ne show False by simp
  qed
qed

theorem transform_symmetric_witness:
  "[0x41, 0x42 :: byte] \<noteq> [] \<and> [0x58, 0x59 :: byte] \<noteq> [] \<and>
   length [0x41, 0x42 :: byte] = length [0x58, 0x59 :: byte] \<and>
   transform zero_machine [0x41, 0x42] [0x58, 0x59] =
     transform zero_machine [0x58, 0x59] [0x41, 0x42] \<and>
   [0x58 :: byte] \<noteq> [] \<and> length [0x41, 0x42 :: byte] \<noteq> length [0x58 :: byte] \<and>
   transform zero_machine [0x41, 0x42] [0x58] \<noteq> transform zero_machine [0x58] [0x41, 0x42]"
proof -
  have a: "[0x41, 0x42 :: byte] \<noteq> []" and b: "[0x58, 0x59 :: byte] \<noteq> []"
    and c: "[0x58 :: byte] \<noteq> []" by simp_all
  have e: "length [0x41, 0x42 :: byte] = length [0x58, 0x59 :: byte]"
    and n: "length [0x41, 0x42 :: byte] \<noteq> length [0x58 :: byte]" by simp_all
  from transform_symmetric [OF a b, of zero_machine zero_machine] e
  have 1: "transform zero_machine [0x41, 0x42] [0x58, 0x59] =
      transform zero_machine [0x58, 0x59] [0x41, 0x42]"
    by blast
  from transform_symmetric [OF a c, of zero_machine zero_machine] n
  have 2: "transform zero_machine [0x41, 0x42] [0x58] \<noteq> transform zero_machine [0x58] [0x41, 0x42]"
    by blast
  from a b c e n 1 2 show ?thesis by (intro conjI)
qed

text \<open>
  Claim C5. On empty data the transform returns \<open>TCL_OK\<close> and the empty byte array for
  every key, the empty key included, so in particular for empty data and empty key. The
  loop body is never executed (the log holds the \<open>malloc\<close> of 0 bytes and the \<open>free\<close>
  only), so no byte of the key is read.
\<close>

theorem transform_empty_data:
  "transform m [] key = (TCL_OK, ByteArrayResult []) \<and>
   effects (Tcl_xor_cmd m [xor_word, [], key]) = [Malloc 0, Free]"
  by (simp add: transform_def Tcl_xor_cmd_def Let_def xor_loop_done malloc_def
        Tcl_NewByteArrayObj_def)

text \<open>
  Claim C6. Called with a number of arguments behind the command word other than two,
  the command returns \<open>TCL_ERROR\<close>, the interpreter's result is the message
  \<open>Invalid command count, use: xor <string> <salt>\<close> whatever it was before, and the log is
  empty: nothing was allocated and the loop body was not executed.
\<close>

theorem xor_usage_error:
  "length args \<noteq> 2 \<Longrightarrow>
   Tcl_xor_cmd m (cmd # args) =
     \<lparr>retval = TCL_ERROR,
      objResult = StringResult ''Invalid command count, use: xor <string> <salt>'',
      effects = []\<rparr>"
  by (simp add: Tcl_xor_cmd_def Let_def Tcl_ResetResult_def usage_def)

theorem xor_usage_error_witness:
  "length ([] :: byte list list) \<noteq> 2 \<and> length [[0x41 :: byte]] \<noteq> 2 \<and>
   length [[0x41], [0x58], [0x59 :: byte]] \<noteq> 2 \<and>
   Tcl_xor_cmd zero_machine [xor_word] =
     \<lparr>retval = TCL_ERROR,
      objResult = StringResult ''Invalid command count, use: xor <string> <salt>'',
      effects = []\<rparr> \<and>
   Tcl_xor_cmd zero_machine [xor_word, [0x41]] =
     \<lparr>retval = TCL_ERROR,
      objResult = StringResult ''Invalid command count, use: xor <string> <salt>'',
      effects = []\<rparr> \<and>
   Tcl_xor_cmd zero_machine [xor_word, [0x41], [0x58], [0x59]] =
     \<lparr>retval = TCL_ERROR,
      objResult = StringResult ''Invalid command count, use: xor <string> <salt>'',
      effects = []\<rparr>"
proof -
  have n0: "length ([] :: byte list list) \<noteq> 2" and n1: "length [[0x41 :: byte]] \<noteq> 2"
    and n3: "length [[0x41], [0x58], [0x59 :: byte]] \<noteq> 2" by simp_all
  from n0 n1 n3 xor_usage_error [OF n0, of zero_machine xor_word]
    xor_usage_error [OF n1, of zero_machine xor_word]
    xor_usage_error [OF n3, of zero_machine xor_word]
  show ?thesis by (intro conjI)
qed

text \<open>
  Claim C7. For the data of 10 bytes \<open>0x41\<close> and the key \<open>[0x58, 0x59]\<close> the transform
  returns the 10 bytes \<open>0x19, 0x18\<close> in alternation.
\<close>

theorem transform_key_cycling:
  "transform m (replicate 10 0x41) [0x58, 0x59] =
     (TCL_OK, ByteArrayResult [0x19, 0x18, 0x19, 0x18, 0x19, 0x18, 0x19, 0x18, 0x19, 0x18])"
  by code_simp

text \<open>
  Claim C3 demands a failure for non-empty data and a key of length 0. The command does
  not test the length of the key. At the data \<open>[0x41]\<close> and the empty key it executes the
  loop body once, reads \<open>salt[0]\<close> behind the end of the key, and returns \<open>TCL_OK\<close> with
  one byte: \<open>0x41\<close> combined with the byte found there.
\<close>

theorem empty_key_no_error:
  "transform m [0x41] [] = (TCL_OK, ByteArrayResult [0x41 XOR beyond m 0]) \<and>
   effects (Tcl_xor_cmd m [xor_word, [0x41], []]) = [Malloc 1, XorByte 0 0, Free]"
  by (simp add: transform_def Tcl_xor_cmd_def Let_def xor_loop_step xor_loop_done
        malloc_def Tcl_NewByteArrayObj_def salt_at_def)

text \<open>
  Claim C8 demands that the output depends on the data and the key only. At the data
  \<open>[0x41]\<close> and the empty key two calls with these same arguments return different
  bytes when the memory behind the key differs: \<open>0x41\<close> over a zero byte, \<open>0x40\<close> over a
  byte 1. (For a key with a byte, or empty data, the output is the same on every machine:
  \<open>transform_deterministic_on_valid\<close>.)
\<close>

theorem empty_key_output_depends_on_memory:
  "transform (zero_machine\<lparr>beyond := \<lambda>_. 0\<rparr>) [0x41] [] = (TCL_OK, ByteArrayResult [0x41]) \<and>
   transform (zero_machine\<lparr>beyond := \<lambda>_. 1\<rparr>) [0x41] [] = (TCL_OK, ByteArrayResult [0x40])"
  by (simp add: transform_def Tcl_xor_cmd_def Let_def xor_loop_step xor_loop_done
        malloc_def Tcl_NewByteArrayObj_def salt_at_def zero_machine_def)

end
